theory Spec2Isabelle
  imports Main "HOL-Library.Sublist" "HOL-Library.AList"
begin

section \<open>Python values\<close>

text \<open>
  A Python \<open>str\<close> is a sequence of Unicode code points; it is modelled as the list of
  its code points, so that \<open>length\<close>, \<open>take\<close> and \<open>drop\<close> count what Python's
  \<open>len\<close> and slicing count. \<open>py ''abc''\<close> writes an ASCII literal.
\<close>

type_synonym pystr = "nat list"

abbreviation (input) py :: "string \<Rightarrow> pystr" where
  "py s \<equiv> map of_char s"

text \<open>
  The values \<open>json.loads\<close> and \<open>response.json()\<close> produce: \<open>None\<close>, \<open>bool\<close>, \<open>int\<close>,
  \<open>float\<close>, \<open>str\<close>, \<open>list\<close> and \<open>dict\<close>. A float is kept as the text it was read from
  (its IEEE value is not computed), a \<open>dict\<close> as its items in insertion order, with
  distinct keys.
\<close>

datatype json =
    JNull
  | JBool bool
  | JInt int
  | JFloat pystr
  | JString pystr
  | JArray "json list"
  | JObject "(pystr \<times> json) list"

text \<open>
  The exceptions the modelled code can raise. \<open>ValueError\<close> carries its message;
  \<open>JSONDecodeError\<close> is \<open>json.JSONDecodeError\<close> (message and position are not
  modelled); \<open>RuntimeError\<close> carries the text it was raised with; \<open>RequestException\<close>
  stands for whatever \<open>requests.post\<close> raises when the transport fails and
  \<open>ResponseDecodeError\<close> for what \<open>response.json()\<close> raises on a body that is not
  JSON. All of them are subclasses of \<open>Exception\<close>.
\<close>

datatype exn =
    ValueError string
  | JSONDecodeError
  | RecursionError
  | RuntimeError pystr
  | KeyError
  | IndexError
  | TypeError
  | AttributeError
  | RequestException
  | ResponseDecodeError

text \<open>A chat message \<open>{"role": ..., "content": ...}\<close>.\<close>

record message =
  role :: pystr
  content :: json

section \<open>The library function \<open>json.loads\<close>\<close>

text \<open>
  \<open>extract_json_from_text\<close> ends in a call of \<open>json.loads\<close>. The decoder is modelled
  after CPython's \<open>json.decoder\<close> and \<open>json.scanner\<close>, function by function, with the
  default options (strict strings, no hooks): \<open>scanstring\<close> reads a string after its
  opening quote, \<open>match_number\<close> is \<open>NUMBER_RE.match\<close> with ASCII digits,
  \<open>scan_once\<close>, \<open>JSONObject\<close> and \<open>JSONArray\<close> are the recursive descent, each returning
  the value and the rest of the text where Python returns the value and the index of
  the rest. \<open>StopIteration\<close> out of \<open>scan_once\<close> is turned into \<open>JSONDecodeError\<close> by
  every caller, so \<open>scan_once\<close> returns that error directly.

  The two loops carry a bound \<open>n\<close> on the remaining iterations and nesting, which makes
  the recursion structural; \<open>json_loads\<close> starts with the length of the text, which is
  never used up (lemma \<open>json_loads_not_RecursionError\<close> below). Python's own recursion
  limit and its optional limit on the number of digits of an integer literal are not
  modelled.
\<close>

definition json_ws :: "nat \<Rightarrow> bool" where
  "json_ws c \<longleftrightarrow> c = 32 \<or> c = 9 \<or> c = 10 \<or> c = 13"

definition skip_ws :: "pystr \<Rightarrow> pystr" where
  "skip_ws s = dropWhile json_ws s"

definition is_digit :: "nat \<Rightarrow> bool" where
  "is_digit c \<longleftrightarrow> 48 \<le> c \<and> c \<le> 57"

definition hex_digit :: "nat \<Rightarrow> nat option" where
  "hex_digit c =
     (if 48 \<le> c \<and> c \<le> 57 then Some (c - 48)
      else if 97 \<le> c \<and> c \<le> 102 then Some (c - 87)
      else if 65 \<le> c \<and> c \<le> 70 then Some (c - 55)
      else None)"

definition decode_uXXXX :: "pystr \<Rightarrow> nat option" where
  "decode_uXXXX s =
     (case map hex_digit (take 4 s) of
        [Some a, Some b, Some c, Some d] \<Rightarrow> Some (((a * 16 + b) * 16 + c) * 16 + d)
      | _ \<Rightarrow> None)"

definition BACKSLASH :: "nat \<Rightarrow> nat option" where
  "BACKSLASH esc =
     (if esc = 34 then Some 34 else if esc = 92 then Some 92
      else if esc = 47 then Some 47 else if esc = 98 then Some 8
      else if esc = 102 then Some 12 else if esc = 110 then Some 10
      else if esc = 114 then Some 13 else if esc = 116 then Some 9
      else None)"

definition append_char :: "nat \<Rightarrow> exn + pystr \<times> pystr \<Rightarrow> exn + pystr \<times> pystr" where
  "append_char c r = (case r of Inl e \<Rightarrow> Inl e | Inr (str, rest) \<Rightarrow> Inr (c # str, rest))"

fun scanstring :: "pystr \<Rightarrow> exn + pystr \<times> pystr" where
  "scanstring [] = Inl JSONDecodeError"
| "scanstring (c # cs) =
     (if c = 34 then Inr ([], cs)
      else if c = 92 then
        (case cs of
           [] \<Rightarrow> Inl JSONDecodeError
         | esc # cs' \<Rightarrow>
             if esc \<noteq> 117 then
               (case BACKSLASH esc of
                  None \<Rightarrow> Inl JSONDecodeError
                | Some char \<Rightarrow> append_char char (scanstring cs'))
             else
               (case decode_uXXXX cs' of
                  None \<Rightarrow> Inl JSONDecodeError
                | Some uni \<Rightarrow>
                    if 0xD800 \<le> uni \<and> uni \<le> 0xDBFF \<and> take 2 (drop 4 cs') = [92, 117] then
                      (case decode_uXXXX (drop 6 cs') of
                         None \<Rightarrow> Inl JSONDecodeError
                       | Some uni2 \<Rightarrow>
                           if 0xDC00 \<le> uni2 \<and> uni2 \<le> 0xDFFF then
                             append_char (0x10000 + ((uni - 0xD800) * 1024 + (uni2 - 0xDC00)))
                               (scanstring (drop 10 cs'))
                           else append_char uni (scanstring (drop 4 cs')))
                    else append_char uni (scanstring (drop 4 cs'))))
      else if c < 32 then Inl JSONDecodeError
      else append_char c (scanstring cs))"

definition match_exp :: "pystr \<Rightarrow> pystr" where
  "match_exp s =
     (case s of
        [] \<Rightarrow> []
      | e # cs \<Rightarrow>
          if e = 101 \<or> e = 69 then
            (let sign = (if take 1 cs = [43] \<or> take 1 cs = [45] then take 1 cs else []);
                 digits = takeWhile is_digit (drop (length sign) cs)
             in if digits = [] then [] else e # sign @ digits)
          else [])"

definition match_frac :: "pystr \<Rightarrow> pystr" where
  "match_frac s =
     (case s of
        [] \<Rightarrow> []
      | c # cs \<Rightarrow>
          if c = 46 \<and> takeWhile is_digit cs \<noteq> [] then c # takeWhile is_digit cs else [])"

definition match_number :: "pystr \<Rightarrow> (pystr \<times> pystr \<times> pystr \<times> pystr) option" where
  "match_number s =
     (let sign = (if take 1 s = [45] then [45] else [])
      in case drop (length sign) s of
           [] \<Rightarrow> None
         | d # ds \<Rightarrow>
             if is_digit d then
               (let integer = sign @ d # (if d = 48 then [] else takeWhile is_digit ds);
                    s1 = drop (length integer) s;
                    frac = match_frac s1;
                    s2 = drop (length frac) s1;
                    exp = match_exp s2
                in Some (integer, frac, exp, drop (length exp) s2))
             else None)"

definition int_of_digits :: "pystr \<Rightarrow> int" where
  "int_of_digits ds = foldl (\<lambda>a d. 10 * a + int (d - 48)) 0 ds"

definition parse_int :: "pystr \<Rightarrow> int" where
  "parse_int s = (if take 1 s = [45] then - int_of_digits (drop 1 s) else int_of_digits s)"

definition dict :: "('k \<times> 'v) list \<Rightarrow> ('k \<times> 'v) list" where
  "dict pairs = foldl (\<lambda>d (k, v). AList.update k v d) [] pairs"

function (sequential)
  scan_once :: "nat \<Rightarrow> pystr \<Rightarrow> exn + json \<times> pystr"
  and JSONObject :: "nat \<Rightarrow> pystr \<Rightarrow> exn + json \<times> pystr"
  and JSONObject_loop :: "nat \<Rightarrow> (pystr \<times> json) list \<Rightarrow> pystr \<Rightarrow> exn + json \<times> pystr"
  and JSONArray :: "nat \<Rightarrow> pystr \<Rightarrow> exn + json \<times> pystr"
  and JSONArray_loop :: "nat \<Rightarrow> json list \<Rightarrow> pystr \<Rightarrow> exn + json \<times> pystr"
where
  "scan_once n s =
     (case s of
        [] \<Rightarrow> Inl JSONDecodeError
      | nextchar # rest \<Rightarrow>
          if nextchar = 34 then
            (case scanstring rest of
               Inl e \<Rightarrow> Inl e
             | Inr (str, end) \<Rightarrow> Inr (JString str, end))
          else if nextchar = 123 then JSONObject n rest
          else if nextchar = 91 then JSONArray n rest
          else if nextchar = 110 \<and> take 4 s = py ''null'' then Inr (JNull, drop 4 s)
          else if nextchar = 116 \<and> take 4 s = py ''true'' then Inr (JBool True, drop 4 s)
          else if nextchar = 102 \<and> take 5 s = py ''false'' then Inr (JBool False, drop 5 s)
          else
            (case match_number s of
               Some (integer, frac, exp, end) \<Rightarrow>
                 if frac \<noteq> [] \<or> exp \<noteq> [] then Inr (JFloat (integer @ frac @ exp), end)
                 else Inr (JInt (parse_int integer), end)
             | None \<Rightarrow>
                 if nextchar = 78 \<and> take 3 s = py ''NaN'' then
                   Inr (JFloat (py ''NaN''), drop 3 s)
                 else if nextchar = 73 \<and> take 8 s = py ''Infinity'' then
                   Inr (JFloat (py ''Infinity''), drop 8 s)
                 else if nextchar = 45 \<and> take 9 s = py ''-Infinity'' then
                   Inr (JFloat (py ''-Infinity''), drop 9 s)
                 else Inl JSONDecodeError))"
| "JSONObject n s =
     (case skip_ws s of
        [] \<Rightarrow> Inl JSONDecodeError
      | nextchar # end \<Rightarrow>
          if nextchar = 125 then Inr (JObject [], end)
          else if nextchar \<noteq> 34 then Inl JSONDecodeError
          else JSONObject_loop n [] end)"
| "JSONObject_loop 0 pairs s = Inl RecursionError"
| "JSONObject_loop (Suc n) pairs s =
     (case scanstring s of
        Inl e \<Rightarrow> Inl e
      | Inr (key, end) \<Rightarrow>
          (case skip_ws end of
             [] \<Rightarrow> Inl JSONDecodeError
           | colon # end \<Rightarrow>
               if colon \<noteq> 58 then Inl JSONDecodeError
               else
                 (case scan_once n (skip_ws end) of
                    Inl e \<Rightarrow> Inl e
                  | Inr (value, end) \<Rightarrow>
                      (case skip_ws end of
                         [] \<Rightarrow> Inl JSONDecodeError
                       | nextchar # end \<Rightarrow>
                           if nextchar = 125 then
                             Inr (JObject (dict (pairs @ [(key, value)])), end)
                           else if nextchar \<noteq> 44 then Inl JSONDecodeError
                           else
                             (case skip_ws end of
                                [] \<Rightarrow> Inl JSONDecodeError
                              | nextchar # end \<Rightarrow>
                                  if nextchar \<noteq> 34 then Inl JSONDecodeError
                                  else JSONObject_loop n (pairs @ [(key, value)]) end)))))"
| "JSONArray n s =
     (case skip_ws s of
        [] \<Rightarrow> JSONArray_loop n [] []
      | nextchar # end \<Rightarrow>
          if nextchar = 93 then Inr (JArray [], end)
          else JSONArray_loop n [] (nextchar # end))"
| "JSONArray_loop 0 values s = Inl RecursionError"
| "JSONArray_loop (Suc n) values s =
     (case scan_once n s of
        Inl e \<Rightarrow> Inl e
      | Inr (value, end) \<Rightarrow>
          (case skip_ws end of
             [] \<Rightarrow> Inl JSONDecodeError
           | nextchar # end \<Rightarrow>
               if nextchar = 93 then Inr (JArray (values @ [value]), end)
               else if nextchar \<noteq> 44 then Inl JSONDecodeError
               else JSONArray_loop n (values @ [value]) (skip_ws end)))"
  by pat_completeness auto

termination
  by (relation "measure (case_sum
        (case_sum (\<lambda>(n, s). 3 * n + 2) (\<lambda>(n, s). 3 * n + 1))
        (case_sum (\<lambda>(n, pairs, s). 3 * n)
           (case_sum (\<lambda>(n, s). 3 * n + 1) (\<lambda>(n, values, s). 3 * n))))") simp_all

text \<open>
  The equations of \<open>scan_once\<close>, \<open>JSONObject\<close> and \<open>JSONArray\<close> have no pattern on the
  left and are unfolded by hand.
\<close>

declare scan_once.simps [simp del] JSONObject.simps [simp del] JSONArray.simps [simp del]

definition json_loads :: "pystr \<Rightarrow> exn + json" where
  "json_loads s =
     (if take 1 s = [0xFEFF] then Inl JSONDecodeError
      else
        (case scan_once (length s) (skip_ws s) of
           Inl e \<Rightarrow> Inl e
         | Inr (obj, end) \<Rightarrow>
             if skip_ws end \<noteq> [] then Inl JSONDecodeError else Inr obj))"

section \<open>JSON extraction (app.py, lines 42-54)\<close>

text \<open>
  \<open>isspace\<close> holds of the characters \<open>str.strip()\<close> removes: the Unicode whitespace
  characters.
\<close>

definition isspace :: "nat \<Rightarrow> bool" where
  "isspace c \<longleftrightarrow>
     (9 \<le> c \<and> c \<le> 13) \<or> (28 \<le> c \<and> c \<le> 32) \<or> c = 0x85 \<or> c = 0xA0 \<or> c = 0x1680
     \<or> (0x2000 \<le> c \<and> c \<le> 0x200A) \<or> c = 0x2028 \<or> c = 0x2029 \<or> c = 0x202F
     \<or> c = 0x205F \<or> c = 0x3000"

definition strip :: "pystr \<Rightarrow> pystr" where
  "strip s = rev (dropWhile isspace (rev (dropWhile isspace s)))"

text \<open>
  \<open>re.sub(r"```json|```", "", text, flags=re.IGNORECASE)\<close> scans the text from the left;
  at each position it tries the alternative \<open>```json\<close> first, then \<open>```\<close>, removes what
  matched and goes on behind it, and otherwise keeps the character. Under
  \<open>re.IGNORECASE\<close> a letter of the pattern matches its two cases, and \<open>s\<close> also
  matches U+017F (LATIN SMALL LETTER LONG S).
\<close>

definition fence :: "pystr \<Rightarrow> bool" where
  "fence s \<longleftrightarrow> take 3 s = [96, 96, 96]"

definition fence_json :: "pystr \<Rightarrow> bool" where
  "fence_json s \<longleftrightarrow>
     fence s \<and> 7 \<le> length s
     \<and> (s ! 3 = 106 \<or> s ! 3 = 74)
     \<and> (s ! 4 = 115 \<or> s ! 4 = 83 \<or> s ! 4 = 383)
     \<and> (s ! 5 = 111 \<or> s ! 5 = 79)
     \<and> (s ! 6 = 110 \<or> s ! 6 = 78)"

fun sub_fences :: "pystr \<Rightarrow> pystr" where
  "sub_fences [] = []"
| "sub_fences (c # cs) =
     (if fence_json (c # cs) then sub_fences (drop 6 cs)
      else if fence (c # cs) then sub_fences (drop 2 cs)
      else c # sub_fences cs)"

text \<open>\<open>text.find(c)\<close> and \<open>text.rfind(c)\<close> for a single character \<open>c\<close>.\<close>

definition str_find :: "nat \<Rightarrow> pystr \<Rightarrow> int" where
  "str_find c s = (if c \<in> set s then int (length (takeWhile (\<lambda>x. x \<noteq> c) s)) else - 1)"

definition str_rfind :: "nat \<Rightarrow> pystr \<Rightarrow> int" where
  "str_rfind c s =
     (if c \<in> set s then int (length s) - 1 - int (length (takeWhile (\<lambda>x. x \<noteq> c) (rev s)))
      else - 1)"

text \<open>\<open>xs[i:j]\<close>: negative indices count from the end, both are clipped to the list.\<close>

definition slice :: "'a list \<Rightarrow> int \<Rightarrow> int \<Rightarrow> 'a list" where
  "slice xs i j =
     (let n = int (length xs);
          lo = (if i < 0 then max 0 (i + n) else min i n);
          hi = (if j < 0 then max 0 (j + n) else min j n)
      in take (nat (hi - lo)) (drop (nat lo) xs))"

definition extract_json_from_text :: "pystr \<Rightarrow> exn + json" where
  "extract_json_from_text text =
     (if text = [] \<or> strip text = [] then Inl (ValueError ''Empty AI response'')
      else
        (let text = strip (sub_fences text);
             start = str_find 123 text;
             end = str_rfind 125 text
         in if start = - 1 \<or> end = - 1 then Inl (ValueError ''No JSON detected'')
            else json_loads (slice text start (end + 1))))"

text \<open>
  \<open>extract_json_from_text\<close> is also called on what \<open>call_ai\<close> returns, which is the
  \<open>content\<close> of the reply and need not be a \<open>str\<close>: on a falsy value \<open>not text\<close> holds,
  on any other value that is not a \<open>str\<close> the call \<open>text.strip()\<close> raises
  \<open>AttributeError\<close>. A float is falsy when it is zero; this is read off its digits
  (underflow to zero is not modelled).
\<close>

definition float_nonzero :: "pystr \<Rightarrow> bool" where
  "float_nonzero x \<longleftrightarrow>
     x = py ''NaN'' \<or> x = py ''Infinity'' \<or> x = py ''-Infinity''
     \<or> list_ex (\<lambda>d. 49 \<le> d \<and> d \<le> 57) (takeWhile (\<lambda>c. c \<noteq> 101 \<and> c \<noteq> 69) x)"

fun truthy :: "json \<Rightarrow> bool" where
  "truthy JNull = False"
| "truthy (JBool b) = b"
| "truthy (JInt i) = (i \<noteq> 0)"
| "truthy (JFloat x) = float_nonzero x"
| "truthy (JString s) = (s \<noteq> [])"
| "truthy (JArray xs) = (xs \<noteq> [])"
| "truthy (JObject kvs) = (kvs \<noteq> [])"

definition extract_json_from_value :: "json \<Rightarrow> exn + json" where
  "extract_json_from_value v =
     (case v of
        JString text \<Rightarrow> extract_json_from_text text
      | _ \<Rightarrow> if truthy v then Inl AttributeError else Inl (ValueError ''Empty AI response''))"

section \<open>The analysis prompt (app.py, lines 84-107)\<close>

text \<open>
  The user message is an f-string with two replacement fields. \<open>template_head\<close> is its
  text up to \<open>{user_question}\<close> (the doubled braces of the f-string are single braces in
  the result), \<open>template_mid\<close> the text between the two fields; after
  \<open>{document_text[:6000]}\<close> only a newline follows.
\<close>

definition template_head :: pystr where
  \<open>template_head = py (''\<newline>Return JSON in EXACTLY this format:\<newline>{\<newline>''
     @ ''  "key_points": ["point 1", "point 2"],\<newline>''
     @ ''  "risk_level": "Low | Medium | High",\<newline>''
     @ ''  "risk_reason": "string",\<newline>''
     @ ''  "summary": "string"\<newline>}\<newline>\<newline>User Question:\<newline>'')\<close>

definition template_mid :: pystr where
  \<open>template_mid = py ''\<newline>\<newline>Document Text:\<newline>''\<close>

definition prompt :: "pystr \<Rightarrow> pystr \<Rightarrow> message list" where
  \<open>prompt document_text user_question =
     [\<lparr>role = py ''system'',
       content = JString (py ''You MUST return ONLY valid JSON. No explanations.'')\<rparr>,
      \<lparr>role = py ''user'',
       content = JString (template_head @ user_question @ template_mid
                          @ take 6000 document_text @ py ''\<newline>'')\<rparr>]\<close>


section \<open>The model client and the orchestrator (app.py, lines 59-126)\<close>

text \<open>
  What \<open>requests.post\<close> returns: the status code, the body as text, and the value of
  \<open>response.json()\<close>, which is \<open>None\<close> when the body is not JSON and the method raises.
\<close>

record response =
  status_code :: int
  body_text :: pystr
  body_json :: "json option"

text \<open>
  The world outside: the configured secret \<open>OPENROUTER_API_KEY\<close> (\<open>None\<close> when it is not
  set), the endpoint, which answers the \<open>n\<close>-th request (counted from 0) carrying
  \<open>messages\<close> with a response, or with \<open>None\<close> when the transport fails and
  \<open>requests.post\<close> raises, and the log of the message lists posted so far. The other
  fields of a request are constants.
\<close>

record world =
  api_key :: "pystr option"
  server :: "nat \<Rightarrow> message list \<Rightarrow> response option"
  sent :: "message list list"

definition requests_post :: "message list \<Rightarrow> world \<Rightarrow> (exn + response) \<times> world" where
  "requests_post messages w =
     ((case server w (length (sent w)) messages of
         None \<Rightarrow> Inl RequestException
       | Some r \<Rightarrow> Inr r),
      w\<lparr>sent := sent w @ [messages]\<rparr>)"

text \<open>
  The operations of \<open>response.json()["choices"][0]["message"].get("content", "")\<close> on
  arbitrary values: subscription by a string, subscription by \<open>0\<close>, and \<open>get\<close> with a
  default.
\<close>

definition getitem :: "json \<Rightarrow> pystr \<Rightarrow> exn + json" where
  "getitem v key =
     (case v of
        JObject kvs \<Rightarrow> (case map_of kvs key of None \<Rightarrow> Inl KeyError | Some x \<Rightarrow> Inr x)
      | _ \<Rightarrow> Inl TypeError)"

definition getitem0 :: "json \<Rightarrow> exn + json" where
  "getitem0 v =
     (case v of
        JArray xs \<Rightarrow> (case xs of [] \<Rightarrow> Inl IndexError | x # _ \<Rightarrow> Inr x)
      | JString s \<Rightarrow> (case s of [] \<Rightarrow> Inl IndexError | c # _ \<Rightarrow> Inr (JString [c]))
      | JObject kvs \<Rightarrow> Inl KeyError
      | _ \<Rightarrow> Inl TypeError)"

definition get_default :: "json \<Rightarrow> pystr \<Rightarrow> json \<Rightarrow> exn + json" where
  "get_default v key dflt =
     (case v of
        JObject kvs \<Rightarrow> Inr (case map_of kvs key of None \<Rightarrow> dflt | Some x \<Rightarrow> x)
      | _ \<Rightarrow> Inl AttributeError)"

definition first_content :: "json \<Rightarrow> exn + json" where
  \<open>first_content j =
     (case getitem j (py ''choices'') of
        Inl e \<Rightarrow> Inl e
      | Inr choices \<Rightarrow>
          (case getitem0 choices of
             Inl e \<Rightarrow> Inl e
           | Inr choice \<Rightarrow>
               (case getitem choice (py ''message'') of
                  Inl e \<Rightarrow> Inl e
                | Inr msg \<Rightarrow> get_default msg (py ''content'') (JString []))))\<close>

definition call_ai :: "message list \<Rightarrow> world \<Rightarrow> (exn + json) \<times> world" where
  "call_ai messages w =
     (case requests_post messages w of
        (Inl e, w') \<Rightarrow> (Inl e, w')
      | (Inr response, w') \<Rightarrow>
          (if status_code response \<noteq> 200 then Inl (RuntimeError (body_text response))
           else
             (case body_json response of
                None \<Rightarrow> Inl ResponseDecodeError
              | Some j \<Rightarrow> first_content j),
           w'))"

definition repair_prompt :: "json \<Rightarrow> message list" where
  \<open>repair_prompt raw =
     [\<lparr>role = py ''system'', content = JString (py ''Fix and return ONLY valid JSON.'')\<rparr>,
      \<lparr>role = py ''user'', content = raw\<rparr>]\<close>

text \<open>\<open>extract_json_from_text(call_ai(messages))\<close>.\<close>

definition extract_call :: "message list \<Rightarrow> world \<Rightarrow> (exn + json) \<times> world" where
  "extract_call messages w =
     (case call_ai messages w of
        (Inl e, w') \<Rightarrow> (Inl e, w')
      | (Inr out, w') \<Rightarrow> (extract_json_from_value out, w'))"

text \<open>
  The body of the second \<open>try\<close>: the model is called with the prompt, and what it
  returns is the user message of the repair prompt.
\<close>

definition attempt_repair :: "message list \<Rightarrow> world \<Rightarrow> (exn + json) \<times> world" where
  "attempt_repair messages w =
     (case call_ai messages w of
        (Inl e, w') \<Rightarrow> (Inl e, w')
      | (Inr raw, w') \<Rightarrow> extract_call (repair_prompt raw) w')"

definition analyze_with_ai :: "pystr \<Rightarrow> pystr \<Rightarrow> world \<Rightarrow> (exn + json) \<times> world" where
  "analyze_with_ai document_text user_question w =
     (case api_key w of
        None \<Rightarrow> (Inl KeyError, w)
      | Some key \<Rightarrow>
          (let messages = prompt document_text user_question
           in case extract_call messages w of
                (Inr v, w1) \<Rightarrow> (Inr v, w1)
              | (Inl e1, w1) \<Rightarrow>
                  (case attempt_repair messages w1 of
                     (Inr v, w2) \<Rightarrow> (Inr v, w2)
                   | (Inl e2, w2) \<Rightarrow> extract_call messages w2)))"

section \<open>Scripted endpoints\<close>

text \<open>
  Concrete worlds for the examples below: \<open>completion t\<close> is a reply with status 200
  whose first choice has the content \<open>t\<close> (a text without characters that JSON
  escapes), and \<open>scripted replies log\<close> is a world with a configured key whose endpoint
  answers the \<open>n\<close>-th request with the \<open>n\<close>-th reply of the list, after the requests of
  \<open>log\<close>.
\<close>

definition completion :: "pystr \<Rightarrow> response" where
  \<open>completion t =
     \<lparr>status_code = 200,
      body_text = py ''{"choices":[{"message":{"content":"'' @ t @ py ''"}}]}'',
      body_json = Some (JObject [(py ''choices'',
        JArray [JObject [(py ''message'', JObject [(py ''content'', JString t)])]])])\<rparr>\<close>

definition scripted :: "response list \<Rightarrow> message list list \<Rightarrow> world" where
  \<open>scripted replies log =
     \<lparr>api_key = Some (py ''sk-test''),
      server = (\<lambda>n messages. if n < length replies then Some (replies ! n) else None),
      sent = log\<rparr>\<close>

section \<open>Auxiliary notions\<close>

text \<open>
  What the proofs below say about a result of the decoder's functions on a text \<open>s\<close>
  with bound \<open>n\<close>: an error is \<open>JSONDecodeError\<close>, or the bound was too small for the
  text, and a value comes with a rest that is shorter than \<open>s\<close>.
\<close>

definition good_loop :: "nat \<Rightarrow> pystr \<Rightarrow> exn + json \<times> pystr \<Rightarrow> bool" where
  "good_loop n s r =
     (case r of
        Inl e \<Rightarrow> e = JSONDecodeError \<or> (e = RecursionError \<and> n \<le> length s)
      | Inr (v, rest) \<Rightarrow> length rest < length s)"

definition good_scan :: "nat \<Rightarrow> pystr \<Rightarrow> exn + json \<times> pystr \<Rightarrow> bool" where
  "good_scan n s r =
     (case r of
        Inl e \<Rightarrow> e = JSONDecodeError \<or> (e = RecursionError \<and> n < length s)
      | Inr (v, rest) \<Rightarrow> length rest < length s)"

text \<open>The characters that occur in a match of \<open>```json|```\<close> under \<open>re.IGNORECASE\<close>.\<close>

definition fence_letter :: "nat \<Rightarrow> bool" where
  "fence_letter y \<longleftrightarrow> y \<in> {96, 106, 74, 115, 83, 383, 111, 79, 110, 78}"

section \<open>Evaluating the model on concrete texts\<close>

lemmas json_eval = json_loads_def scan_once.simps JSONObject.simps JSONArray.simps
  skip_ws_def json_ws_def match_number_def match_frac_def
  match_exp_def is_digit_def parse_int_def int_of_digits_def dict_def append_char_def

lemmas extract_eval = extract_json_from_text_def strip_def isspace_def fence_def fence_json_def
  str_find_def str_rfind_def slice_def

lemma extract_empty_object: \<open>extract_json_from_text (py ''{}'') = Inr (JObject [])\<close>
  by (simp add: extract_eval json_eval)

lemma extract_oops: \<open>extract_json_from_text (py ''{oops}'') = Inl JSONDecodeError\<close>
  by (simp add: extract_eval json_eval)

lemma ex_trailing:
  \<open>strip (sub_fences (py ''{"a":1} trailing {not json}''))
     = [] @ [123] @ py ''"a":1} trailing {not json'' @ [125] @ []\<close>
  by (simp add: strip_def isspace_def fence_def fence_json_def)

lemma loads_trailing:
  \<open>json_loads (py ''{"a":1} trailing {not json}'') = Inl JSONDecodeError\<close>
  by (simp add: json_eval)

lemma loads_a1: \<open>json_loads (py ''{"a":1}'') = Inr (JObject [(py ''a'', JInt 1)])\<close>
  by (simp add: json_eval)

lemma extract_prose_brace:
  \<open>extract_json_from_text (py ''{"a":1}'' @ py '' ok :-}'') = Inl JSONDecodeError\<close>
  by (simp add: extract_eval json_eval)

lemma loads_fence_string:
  \<open>json_loads (py ''{"a":"```"}'') = Inr (JObject [(py ''a'', JString (py ''```''))])\<close>
  by (simp add: json_eval)

lemma extract_fence_string:
  \<open>extract_json_from_text (py ''{"a":"```"}'') = Inr (JObject [(py ''a'', JString [])])\<close>
  by (simp add: extract_eval json_eval)

lemma extract_fenced:
  \<open>extract_json_from_text (py ''Here is the JSON:\<newline>```json\<newline>'' @ [123] @ py ''"a":1''
      @ [125] @ py ''\<newline>```\<newline>Done.'') = Inr (JObject [(py ''a'', JInt 1)])\<close>
  by (simp add: extract_eval json_eval)

lemma no_fence_a1: \<open>\<not> sublist [96, 96, 96] ([123] @ py ''"a":1'' @ [125])\<close>
  by (simp add: sublist_Cons_right prefix_Cons)

section \<open>The decoder: errors, progress, and the bound\<close>

lemma append_char_Inr:
  "append_char c r = Inr (str, rest) \<longleftrightarrow> (\<exists>str'. r = Inr (str', rest) \<and> str = c # str')"
  by (auto simp: append_char_def split: sum.splits)

lemma append_char_Inl: "append_char c r = Inl e \<longleftrightarrow> r = Inl e"
  by (auto simp: append_char_def split: sum.splits)

lemma scanstring_error: "scanstring s = Inl e \<Longrightarrow> e = JSONDecodeError"
  by (induction s arbitrary: e rule: scanstring.induct)
    (auto simp: append_char_Inl split: if_splits list.splits option.splits)

lemma scanstring_shorter: "scanstring s = Inr (str, r) \<Longrightarrow> length r < length s"
proof (induction "length s" arbitrary: s str r rule: less_induct)
  case less
  have IH: "\<And>ys str r. scanstring ys = Inr (str, r) \<Longrightarrow> length ys < length s
      \<Longrightarrow> length r < length ys"
    using less.hyps by blast
  show ?case
  proof (cases s)
    case Nil
    with less.prems show ?thesis by simp
  next
    case (Cons c cs)
    with less.prems show ?thesis
      by (auto simp: append_char_Inr split: if_splits list.splits option.splits dest!: IH)
  qed
qed

lemma skip_ws_length: "length (skip_ws s) \<le> length s"
  by (simp add: skip_ws_def length_dropWhile_le)

lemma match_number_shorter:
  assumes "match_number s = Some (integer, frac, exp, r)"
  shows "length r < length s"
proof -
  from assms have "s \<noteq> [] \<and> length r \<le> length s - 1"
    by (auto simp: match_number_def Let_def split: list.splits if_splits)
  then show ?thesis by (cases s) auto
qed

lemma good_loop_shorter:
  "good_loop n s' r \<Longrightarrow> length s' < length s \<Longrightarrow> good_scan n s r"
  by (auto simp: good_loop_def good_scan_def split: sum.splits)

lemma good_loop_mono:
  "good_loop n s' r \<Longrightarrow> length s' \<le> length s \<Longrightarrow> good_loop n s r"
  by (auto simp: good_loop_def split: sum.splits)

lemma skip_ws_Cons_length: "skip_ws s = c # rest \<Longrightarrow> length rest < length s"
  using skip_ws_length [of s] by simp


lemma good_scanD1:
  "good_scan n s r \<Longrightarrow> r = Inl e \<Longrightarrow> e = JSONDecodeError \<or> (e = RecursionError \<and> n < length s)"
  by (simp add: good_scan_def)

lemma good_scanD2: "good_scan n s r \<Longrightarrow> r = Inr (v, rest) \<Longrightarrow> length rest < length s"
  by (simp add: good_scan_def)

lemma good_loopD1:
  "good_loop n s r \<Longrightarrow> r = Inl e \<Longrightarrow> e = JSONDecodeError \<or> (e = RecursionError \<and> n \<le> length s)"
  by (simp add: good_loop_def)

lemma good_loopD2: "good_loop n s r \<Longrightarrow> r = Inr (v, rest) \<Longrightarrow> length rest < length s"
  by (simp add: good_loop_def)

lemma JSONObject_good:
  assumes "\<And>pairs s. good_loop n s (JSONObject_loop n pairs s)"
  shows "good_loop n s (JSONObject n s)"
proof (cases "skip_ws s")
  case Nil
  then show ?thesis by (simp add: JSONObject.simps good_loop_def)
next
  case (Cons c rest)
  then have "length rest < length s" by (rule skip_ws_Cons_length)
  with assms [of rest "[]"] Cons show ?thesis
    by (auto simp: JSONObject.simps good_loop_def split: sum.splits)
qed

lemma JSONArray_good:
  assumes "\<And>values s. good_loop n s (JSONArray_loop n values s)"
  shows "good_loop n s (JSONArray n s)"
proof (cases "skip_ws s")
  case Nil
  with assms [of "[]" "[]"] show ?thesis
    by (auto simp: JSONArray.simps good_loop_def split: sum.splits)
next
  case (Cons c rest)
  then have "length rest < length s" by (rule skip_ws_Cons_length)
  with assms [of "c # rest" "[]"] Cons show ?thesis
    by (auto simp: JSONArray.simps good_loop_def split: sum.splits)
qed

lemma scan_once_string:
  "good_scan n (34 # rest) (scan_once n (34 # rest))"
  by (auto simp: scan_once.simps good_scan_def split: sum.splits
      dest: scanstring_error scanstring_shorter)

lemma scan_once_atom:
  assumes "c \<noteq> 34" "c \<noteq> 123" "c \<noteq> 91"
  shows "good_scan n (c # rest) (scan_once n (c # rest))"
proof (cases "match_number (c # rest)")
  case None
  with assms show ?thesis
    by (auto simp: scan_once.simps good_scan_def)
next
  case (Some m)
  then obtain integer frac exp r where m: "match_number (c # rest) = Some (integer, frac, exp, r)"
    by (cases m) auto
  from match_number_shorter [OF m] have "length r < length (c # rest)" .
  with assms m show ?thesis
    by (auto simp: scan_once.simps good_scan_def)
qed

lemma JSONObject_loop_good_step:
  assumes scan: "\<And>s. good_scan n s (scan_once n s)"
    and loop: "\<And>pairs s. good_loop n s (JSONObject_loop n pairs s)"
  shows "good_loop (Suc n) s (JSONObject_loop (Suc n) pairs s)"
proof -
  have s1: "e = JSONDecodeError \<or> (e = RecursionError \<and> n < length s')"
    if "scan_once n (skip_ws s') = Inl e" for s' e
    using good_scanD1 [OF scan that] skip_ws_length [of s'] by auto
  have s2: "length r < length s'" if "scan_once n (skip_ws s') = Inr (v, r)" for s' v r
    using good_scanD2 [OF scan that] skip_ws_length [of s'] by auto
  have l1: "e = JSONDecodeError \<or> (e = RecursionError \<and> n \<le> length s')"
    if "JSONObject_loop n ps s' = Inl e" for ps s' e
    using good_loopD1 [OF loop that] by auto
  have l2: "length r < length s'" if "JSONObject_loop n ps s' = Inr (v, r)" for ps s' v r
    using good_loopD2 [OF loop that] by auto
  show ?thesis
    by (auto simp: good_loop_def split: sum.splits list.splits prod.splits if_splits
        dest!: scanstring_error scanstring_shorter skip_ws_Cons_length s1 s2 l1 l2)
qed

lemma JSONArray_loop_good_step:
  assumes scan: "\<And>s. good_scan n s (scan_once n s)"
    and loop: "\<And>values s. good_loop n s (JSONArray_loop n values s)"
  shows "good_loop (Suc n) s (JSONArray_loop (Suc n) values s)"
proof -
  have s1: "e = JSONDecodeError \<or> (e = RecursionError \<and> n < length s')"
    if "scan_once n s' = Inl e" for s' e
    using good_scanD1 [OF scan that] by auto
  have s2: "length r < length s'" if "scan_once n s' = Inr (v, r)" for s' v r
    using good_scanD2 [OF scan that] by auto
  have l1: "e = JSONDecodeError \<or> (e = RecursionError \<and> n \<le> length s')"
    if "JSONArray_loop n vs (skip_ws s') = Inl e" for vs s' e
    using good_loopD1 [OF loop that] skip_ws_length [of s'] by auto
  have l2: "length r < length s'" if "JSONArray_loop n vs (skip_ws s') = Inr (v, r)" for vs s' v r
    using good_loopD2 [OF loop that] skip_ws_length [of s'] by auto
  show ?thesis
    by (auto simp: good_loop_def split: sum.splits list.splits prod.splits if_splits
        dest!: skip_ws_Cons_length s1 s2 l1 l2)
qed

lemma scan_once_good:
  assumes obj: "\<And>pairs s. good_loop n s (JSONObject_loop n pairs s)"
    and arr: "\<And>values s. good_loop n s (JSONArray_loop n values s)"
  shows "good_scan n s (scan_once n s)"
proof (cases s)
  case Nil
  then show ?thesis by (simp add: scan_once.simps good_scan_def)
next
  case (Cons c rest)
  consider (quote) "c = 34" | (brace) "c = 123" | (bracket) "c = 91"
    | (other) "c \<noteq> 34" "c \<noteq> 123" "c \<noteq> 91"
    by blast
  then show ?thesis
  proof cases
    case quote
    with Cons show ?thesis by (simp add: scan_once_string)
  next
    case brace
    with Cons have "scan_once n s = JSONObject n rest" by (simp add: scan_once.simps)
    with JSONObject_good [OF obj, of rest] Cons show ?thesis
      by (simp add: good_loop_shorter)
  next
    case bracket
    with Cons have "scan_once n s = JSONArray n rest" by (simp add: scan_once.simps)
    with JSONArray_good [OF arr, of rest] Cons show ?thesis
      by (simp add: good_loop_shorter)
  next
    case other
    with Cons show ?thesis by (simp add: scan_once_atom)
  qed
qed

lemma loops_good:
  "(\<forall>pairs s. good_loop n s (JSONObject_loop n pairs s))
   \<and> (\<forall>values s. good_loop n s (JSONArray_loop n values s))"
proof (induction n)
  case 0
  show ?case by (simp add: good_loop_def)
next
  case (Suc n)
  then have scan: "good_scan n s (scan_once n s)" for s
    by (intro scan_once_good) blast+
  from Suc show ?case
    by (blast intro: JSONObject_loop_good_step JSONArray_loop_good_step scan)
qed

lemma decoder_good: "good_scan n s (scan_once n s)"
  using loops_good [of n] by (intro scan_once_good) blast+

lemma json_loads_error: "json_loads s = Inl e \<Longrightarrow> e = JSONDecodeError"
  using good_scanD1 [OF decoder_good, of "length s" "skip_ws s" e] skip_ws_length [of s]
  by (auto simp: json_loads_def split: if_splits sum.splits prod.splits)

lemma json_loads_not_RecursionError: "json_loads s \<noteq> Inl RecursionError"
  using json_loads_error [of s RecursionError] by auto

section \<open>Only objects are extracted\<close>

lemma JSONObject_loop_object:
  "JSONObject_loop n pairs s = Inr (v, r) \<Longrightarrow> \<exists>kvs. v = JObject kvs"
proof (induction n arbitrary: pairs s)
  case 0
  then show ?case by simp
next
  case (Suc n)
  then show ?case
    by (auto split: sum.splits list.splits if_splits prod.splits)
qed

lemma JSONObject_object:
  assumes "JSONObject n s = Inr (v, r)"
  shows "\<exists>kvs. v = JObject kvs"
proof (cases "skip_ws s")
  case Nil
  with assms show ?thesis by (simp add: JSONObject.simps)
next
  case (Cons nextchar rest)
  show ?thesis
  proof (cases "nextchar = 125")
    case True
    with assms Cons show ?thesis by (auto simp: JSONObject.simps)
  next
    case False
    with assms Cons have "JSONObject_loop n [] rest = Inr (v, r)"
      by (simp add: JSONObject.simps split: if_splits)
    then show ?thesis
      by (rule JSONObject_loop_object)
  qed
qed

lemma json_loads_object:
  assumes "json_loads s = Inr v" and "s = [] \<or> hd s = 123"
  shows "\<exists>kvs. v = JObject kvs"
proof (cases s)
  case Nil
  with assms(1) show ?thesis
    by (simp add: json_loads_def skip_ws_def scan_once.simps)
next
  case (Cons c rest)
  with assms(2) have c: "c = 123" by simp
  have "skip_ws s = s"
    using Cons c by (simp add: skip_ws_def json_ws_def)
  moreover have "scan_once (length s) s = JSONObject (length s) rest"
    unfolding Cons c by (subst scan_once.simps) simp
  ultimately have "case JSONObject (length s) rest of Inl e \<Rightarrow> False | Inr (obj, end) \<Rightarrow> obj = v"
    using assms(1) by (auto simp: json_loads_def split: sum.splits if_splits)
  then obtain r where "JSONObject (length s) rest = Inr (v, r)"
    by (auto split: sum.splits)
  then show ?thesis
    by (rule JSONObject_object)
qed

lemma slice_from_find:
  assumes "c \<in> set t"
  shows "slice t (str_find c t) j = [] \<or> hd (slice t (str_find c t) j) = c"
proof -
  let ?k = "length (takeWhile (\<lambda>x. x \<noteq> c) t)"
  have "length (takeWhile (\<lambda>x. x \<noteq> c) t) + length (dropWhile (\<lambda>x. x \<noteq> c) t) = length t"
    by (metis length_append takeWhile_dropWhile_id)
  moreover have "dropWhile (\<lambda>x. x \<noteq> c) t \<noteq> []"
    using assms by simp
  ultimately have k: "?k < length t"
    by (cases "dropWhile (\<lambda>x. x \<noteq> c) t") auto
  have "drop ?k t = dropWhile (\<lambda>x. x \<noteq> c) t"
    by (simp add: dropWhile_eq_drop)
  moreover have "dropWhile (\<lambda>x. x \<noteq> c) t \<noteq> []"
    using assms by simp
  moreover have "hd (dropWhile (\<lambda>x. x \<noteq> c) t) = c"
    using hd_dropWhile [of "\<lambda>x. x \<noteq> c" t] assms by simp
  ultimately obtain rest where d: "drop ?k t = c # rest"
    by (cases "dropWhile (\<lambda>x. x \<noteq> c) t") auto
  have "slice t (str_find c t) j = take (nat ((if j < 0 then max 0 (j + int (length t)) else min j (int (length t))) - int ?k)) (drop ?k t)"
    using assms k by (simp add: slice_def str_find_def Let_def min_def)
  then show ?thesis
    using d by (cases "nat ((if j < 0 then max 0 (j + int (length t)) else min j (int (length t))) - int ?k)") auto
qed

lemma extract_json_from_text_object:
  assumes "extract_json_from_text text = Inr v"
  shows "\<exists>kvs. v = JObject kvs"
proof -
  let ?t = "strip (sub_fences text)"
  from assms have f: "str_find 123 ?t \<noteq> - 1"
    and l: "json_loads (slice ?t (str_find 123 ?t) (str_rfind 125 ?t + 1)) = Inr v"
    by (auto simp: extract_json_from_text_def Let_def split: if_splits)
  from f have "123 \<in> set ?t"
    by (auto simp: str_find_def split: if_splits)
  from slice_from_find [OF this] json_loads_object [OF l] show ?thesis
    by blast
qed

text \<open>
  Claim C10. Whenever \<open>extract_json_from_text\<close> returns a value, the value is a JSON
  object (a \<open>dict\<close>), never an array, a string, a number, a boolean or \<open>None\<close>: what is
  handed to \<open>json.loads\<close> is empty, and rejected, or begins with an opening brace.
\<close>

theorem extract_returns_object:
  "extract_json_from_text text = Inr v \<Longrightarrow> \<exists>kvs. v = JObject kvs"
  by (rule extract_json_from_text_object)

theorem extract_returns_object_witness:
  \<open>extract_json_from_text (py ''{}'') = Inr (JObject []) \<and> (\<exists>kvs. JObject [] = JObject kvs)\<close>
  using extract_returns_object [of \<open>py ''{}''\<close> "JObject []"] extract_empty_object
  by simp

section \<open>Properties of the extraction\<close>

lemma all_dropWhile_iff: "(\<forall>x\<in>set (dropWhile P xs). P x) \<longleftrightarrow> (\<forall>x\<in>set xs. P x)"
proof
  assume a: "\<forall>x\<in>set (dropWhile P xs). P x"
  have "dropWhile P xs = []"
  proof (rule ccontr)
    assume n: "dropWhile P xs \<noteq> []"
    then have "hd (dropWhile P xs) \<in> set (dropWhile P xs)" by simp
    with a hd_dropWhile [OF n] show False by blast
  qed
  then show "\<forall>x\<in>set xs. P x" by simp
next
  assume "\<forall>x\<in>set xs. P x"
  then show "\<forall>x\<in>set (dropWhile P xs). P x" by (blast dest: set_dropWhileD)
qed

lemma strip_empty_iff: "strip s = [] \<longleftrightarrow> (\<forall>c\<in>set s. isspace c)"
  by (simp add: strip_def all_dropWhile_iff)

lemma extract_empty_iff:
  "extract_json_from_text text = Inl (ValueError ''Empty AI response'')
     \<longleftrightarrow> text = [] \<or> (\<forall>c\<in>set text. isspace c)"
proof (cases "text = [] \<or> strip text = []")
  case True
  then show ?thesis
    by (auto simp: extract_json_from_text_def strip_empty_iff)
next
  case False
  then have "extract_json_from_text text \<noteq> Inl (ValueError ''Empty AI response'')"
    by (auto simp: extract_json_from_text_def Let_def dest: json_loads_error)
  with False show ?thesis
    by (auto simp: strip_empty_iff)
qed

lemma set_strip: "set (strip s) \<subseteq> set s"
  by (auto simp: strip_def dest!: set_dropWhileD)

lemma set_sub_fences: "set (sub_fences s) \<subseteq> set s"
proof (induction s rule: sub_fences.induct)
  case 1
  show ?case by simp
next
  case (2 c cs)
  then show ?case
    by (auto dest: in_set_dropD)
qed

lemma takeWhile_neq_all: "c \<notin> set a \<Longrightarrow> takeWhile (\<lambda>x. x \<noteq> c) a = a"
  by (induction a) auto

lemma str_find_append:
  "c \<notin> set a \<Longrightarrow> str_find c (a @ c # rest) = int (length a)"
  by (simp add: str_find_def takeWhile_tail takeWhile_neq_all)

lemma str_rfind_append:
  "c \<notin> set b \<Longrightarrow> str_rfind c (a @ c # b) = int (length a)"
proof -
  assume "c \<notin> set b"
  then have "takeWhile (\<lambda>x. x \<noteq> c) (rev b @ c # rev a) = rev b"
    by (simp add: takeWhile_tail takeWhile_neq_all)
  then show ?thesis
    by (simp add: str_rfind_def)
qed

lemma slice_middle:
  "slice (a @ x @ b) (int (length a)) (int (length a + length x)) = x"
  by (simp add: slice_def Let_def min_def)

lemma extract_outer_braces:
  assumes t: "strip (sub_fences text) = a @ [123] @ m @ [125] @ b"
    and a: "123 \<notin> set a" and b: "125 \<notin> set b"
  shows "extract_json_from_text text = json_loads ([123] @ m @ [125])"
proof -
  let ?t = "strip (sub_fences text)"
  have "123 \<in> set ?t" by (simp add: t)
  with set_strip [of "sub_fences text"] set_sub_fences [of "text"] have "123 \<in> set text"
    by blast
  moreover have "\<not> isspace 123" by (simp add: isspace_def)
  ultimately have nb: "\<not> (text = [] \<or> strip text = [])"
    by (auto simp: strip_empty_iff)
  have f: "str_find 123 ?t = int (length a)"
    using str_find_append [OF a, of "m @ [125] @ b"] by (simp add: t)
  have r: "str_rfind 125 ?t = int (length a) + int (length m) + 1"
    using str_rfind_append [OF b, of "a @ [123] @ m"] by (simp add: t)
  have "slice ?t (int (length a)) (int (length a) + int (length m) + 1 + 1) = [123] @ m @ [125]"
    using slice_middle [of a "[123] @ m @ [125]" b] by (simp add: t add.commute add.left_commute)
  with nb f r show ?thesis
    by (simp add: extract_json_from_text_def Let_def)
qed

lemma fence_nth: "fence s \<Longrightarrow> k < 3 \<Longrightarrow> k < length s \<Longrightarrow> s ! k = 96"
proof -
  assume f: "fence s" and k: "k < 3" "k < length s"
  have "take 3 s ! k = s ! k" using k by simp
  moreover have "[96, 96, 96 :: nat] ! k = 96"
    using k by (cases k; simp; cases "k - 1"; simp)
  ultimately show ?thesis using f by (simp add: fence_def)
qed

lemma fence_json_fence: "fence_json s \<Longrightarrow> fence s"
  by (simp add: fence_json_def)

lemma fence_append_long: "3 \<le> length xs \<Longrightarrow> fence (xs @ ys) = fence xs"
  by (simp add: fence_def)

lemma fence_append_short:
  assumes "length xs < 3" "y \<noteq> 96"
  shows "\<not> fence (xs @ y # ys)"
proof
  assume "fence (xs @ y # ys)"
  from fence_nth [OF this, of "length xs"] assms show False by simp
qed

lemma fence_short: "length xs < 3 \<Longrightarrow> \<not> fence xs"
proof
  assume "length xs < 3" and "fence xs"
  then have "length (take 3 xs) = 3" by (simp add: fence_def)
  with \<open>length xs < 3\<close> show False by simp
qed

lemma fence_append: "y \<noteq> 96 \<Longrightarrow> fence (xs @ y # ys) = fence xs"
  by (cases "3 \<le> length xs") (simp_all add: fence_append_long fence_append_short fence_short)

lemma fence_json_append:
  assumes y: "\<not> fence_letter y"
  shows "fence_json (xs @ y # ys) = fence_json xs"
proof (cases "7 \<le> length xs")
  case True
  then show ?thesis
    by (simp add: fence_json_def fence_append_long nth_append)
next
  case False
  then have n: "\<not> fence_json xs" by (simp add: fence_json_def)
  have "\<not> fence_json (xs @ y # ys)"
  proof
    assume j: "fence_json (xs @ y # ys)"
    have at: "(xs @ y # ys) ! length xs = y" by simp
    consider "length xs < 3" | "length xs = 3" | "length xs = 4" | "length xs = 5" | "length xs = 6"
      using False by linarith
    then show False
    proof cases
      case 1
      with fence_append_short [of xs y ys] y fence_json_fence [OF j] show False
        by (simp add: fence_letter_def)
    next
      case 2
      with j at y show False by (auto simp: fence_json_def fence_letter_def)
    next
      case 3
      with j at y show False by (auto simp: fence_json_def fence_letter_def)
    next
      case 4
      with j at y show False by (auto simp: fence_json_def fence_letter_def)
    next
      case 5
      with j at y show False by (auto simp: fence_json_def fence_letter_def)
    qed
  qed
  with n show ?thesis by simp
qed

lemma sub_fences_append_other:
  assumes y: "\<not> fence_letter y"
  shows "sub_fences (xs @ y # ys) = sub_fences xs @ sub_fences (y # ys)"
proof (induction xs rule: sub_fences.induct)
  case 1
  show ?case by simp
next
  case (2 c cs)
  from y have y96: "y \<noteq> 96" by (simp add: fence_letter_def)
  have j: "fence_json (c # cs @ y # ys) = fence_json (c # cs)"
    using fence_json_append [OF y, of "c # cs" ys] by simp
  have f: "fence (c # cs @ y # ys) = fence (c # cs)"
    using fence_append [OF y96, of "c # cs" ys] by simp
  show ?case
  proof (cases "fence_json (c # cs)")
    case True
    then have "6 \<le> length cs" by (simp add: fence_json_def)
    with True j "2.IH"(1) show ?thesis by simp
  next
    case nj: False
    show ?thesis
    proof (cases "fence (c # cs)")
      case True
      then have "2 \<le> length cs"
        using fence_short [of "c # cs"] by (cases "length cs < 2") auto
      with True nj j f "2.IH"(2) show ?thesis by simp
    next
      case False
      with nj j f "2.IH"(3) show ?thesis by simp
    qed
  qed
qed

lemma fence_prefix: "fence s \<longleftrightarrow> prefix [96, 96, 96] s"
proof
  assume "fence s"
  then have "take 3 s = [96, 96, 96]" by (simp add: fence_def)
  then show "prefix [96, 96, 96] s" by (metis take_is_prefix)
next
  assume "prefix [96, 96, 96] s"
  then obtain r where "s = [96, 96, 96] @ r" by (auto simp: prefix_def)
  then show "fence s" by (simp add: fence_def)
qed

lemma sub_fences_keep:
  assumes "\<not> sublist [96, 96, 96] js" "js \<noteq> []" "last js \<noteq> 96"
  shows "sub_fences (js @ post) = js @ sub_fences post"
  using assms
proof (induction js)
  case Nil
  then show ?case by simp
next
  case (Cons c cs)
  have nf: "\<not> fence (c # cs @ post)"
  proof (cases "3 \<le> length (c # cs)")
    case True
    then have "fence ((c # cs) @ post) = fence (c # cs)" by (rule fence_append_long)
    moreover have "\<not> fence (c # cs)"
      using Cons.prems(1) by (auto simp: fence_prefix)
    ultimately show ?thesis by simp
  next
    case False
    show ?thesis
    proof
      assume "fence (c # cs @ post)"
      from fence_nth [OF this, of "length cs"] False
      have "(c # cs @ post) ! length cs = 96" by simp
      moreover have "(c # cs @ post) ! length cs = last (c # cs)"
        by (metis append_Cons last_conv_nth length_Cons diff_Suc_1 list.distinct(1) nth_append lessI)
      ultimately show False using Cons.prems(3) by simp
    qed
  qed
  then have nj: "\<not> fence_json (c # cs @ post)" by (blast dest: fence_json_fence)
  show ?case
  proof (cases "cs = []")
    case True
    with nf nj show ?thesis by simp
  next
    case False
    have a: "\<not> sublist [96, 96, 96] cs"
      using Cons.prems(1) by (auto simp: sublist_Cons_right)
    have b: "last cs \<noteq> 96" using Cons.prems(3) False by simp
    from Cons.IH [OF a False b] nf nj show ?thesis by simp
  qed
qed


lemma strip_around:
  assumes "\<not> isspace x" "\<not> isspace y"
  shows "\<exists>a b. strip (p @ [x] @ m @ [y] @ q) = a @ [x] @ m @ [y] @ b
           \<and> set a \<subseteq> set p \<and> set b \<subseteq> set q"
proof -
  let ?a = "dropWhile isspace p"
  let ?b = "rev (dropWhile isspace (rev q))"
  have 1: "dropWhile isspace (p @ [x] @ m @ [y] @ q) = ?a @ [x] @ m @ [y] @ q"
    using assms(1) by (simp add: dropWhile_append3)
  have "dropWhile isspace (rev q @ y # rev m @ x # rev ?a)
          = dropWhile isspace (rev q) @ y # rev m @ x # rev ?a"
    using assms(2) by (simp add: dropWhile_append3)
  with 1 have "strip (p @ [x] @ m @ [y] @ q) = ?a @ [x] @ m @ [y] @ ?b"
    by (simp add: strip_def)
  moreover have "set ?a \<subseteq> set p" "set ?b \<subseteq> set q"
    by (auto dest: set_dropWhileD)
  ultimately show ?thesis by blast
qed

lemma extract_embedded:
  assumes nf: "\<not> sublist [96, 96, 96] ([123] @ m @ [125])"
    and pre: "123 \<notin> set pre" and post: "125 \<notin> set post"
  shows "extract_json_from_text (pre @ [123] @ m @ [125] @ post) = json_loads ([123] @ m @ [125])"
proof -
  have "\<not> fence_letter 123" by (simp add: fence_letter_def)
  then have "sub_fences (pre @ 123 # (m @ [125] @ post))
      = sub_fences pre @ sub_fences (123 # (m @ [125] @ post))"
    by (rule sub_fences_append_other)
  moreover have "sub_fences (([123] @ m @ [125]) @ post) = ([123] @ m @ [125]) @ sub_fences post"
    using nf by (intro sub_fences_keep) simp_all
  ultimately have s: "sub_fences (pre @ [123] @ m @ [125] @ post)
      = sub_fences pre @ [123] @ m @ [125] @ sub_fences post"
    by simp
  have "\<not> isspace 123" "\<not> isspace 125" by (simp_all add: isspace_def)
  from strip_around [OF this, of "sub_fences pre" m "sub_fences post"]
  obtain a b where t: "strip (sub_fences (pre @ [123] @ m @ [125] @ post)) = a @ [123] @ m @ [125] @ b"
    and "set a \<subseteq> set (sub_fences pre)" and "set b \<subseteq> set (sub_fences post)"
    unfolding s by blast
  with set_sub_fences [of pre] set_sub_fences [of post] pre post
  have "123 \<notin> set a" "125 \<notin> set b" by blast+
  with t show ?thesis by (rule extract_outer_braces)
qed

text \<open>
  Claim C8. \<open>extract_json_from_text\<close> raises \<open>ValueError("Empty AI response")\<close> if and
  only if its argument is empty or consists of whitespace only.
\<close>

theorem extract_empty_response_iff:
  "extract_json_from_text text = Inl (ValueError ''Empty AI response'')
     \<longleftrightarrow> text = [] \<or> (\<forall>c\<in>set text. isspace c)"
  by (rule extract_empty_iff)

theorem extract_empty_response_iff_witness:
  \<open>extract_json_from_text (py ''   '') = Inl (ValueError ''Empty AI response'')
   \<and> extract_json_from_text [] = Inl (ValueError ''Empty AI response'')\<close>
  using extract_empty_response_iff [of \<open>py ''   ''\<close>] extract_empty_response_iff [of "[]"]
  by (simp add: isspace_def)

text \<open>
  Claim C5. What is parsed is the part of the stripped text from its first opening
  brace to its last closing brace, whatever lies between them: when the stripped text
  is \<open>a\<close>, an opening brace, \<open>m\<close>, a closing brace, \<open>b\<close>, with no opening brace in \<open>a\<close> and no
  closing brace in \<open>b\<close>, the result is that of \<open>json.loads\<close> on the braces with \<open>m\<close>
  between them. On \<open>{"a":1} trailing {not json}\<close> this is the whole text, which
  \<open>json.loads\<close> rejects, although the first object alone would be accepted.
\<close>

theorem extract_first_to_last_brace:
  \<open>(strip (sub_fences text) = a @ [123] @ m @ [125] @ b \<and> 123 \<notin> set a \<and> 125 \<notin> set b
      \<longrightarrow> extract_json_from_text text = json_loads ([123] @ m @ [125]))
   \<and> extract_json_from_text (py ''{"a":1} trailing {not json}'')
       = json_loads (py ''{"a":1} trailing {not json}'')
   \<and> json_loads (py ''{"a":1} trailing {not json}'') = Inl JSONDecodeError
   \<and> json_loads (py ''{"a":1}'') = Inr (JObject [(py ''a'', JInt 1)])\<close>
proof (intro conjI impI)
  assume \<open>strip (sub_fences text) = a @ [123] @ m @ [125] @ b \<and> 123 \<notin> set a \<and> 125 \<notin> set b\<close>
  then show \<open>extract_json_from_text text = json_loads ([123] @ m @ [125])\<close>
    by (blast intro: extract_outer_braces)
next
  show \<open>extract_json_from_text (py ''{"a":1} trailing {not json}'')
       = json_loads (py ''{"a":1} trailing {not json}'')\<close>
    using extract_outer_braces [OF ex_trailing] by simp
qed (rule loads_trailing loads_a1)+

theorem extract_first_to_last_brace_witness:
  \<open>strip (sub_fences (py ''{"a":1} trailing {not json}''))
     = [] @ [123] @ py ''"a":1} trailing {not json'' @ [125] @ []
   \<and> extract_json_from_text (py ''{"a":1} trailing {not json}'')
       = json_loads ([123] @ py ''"a":1} trailing {not json'' @ [125])\<close>
  using extract_first_to_last_brace [of \<open>py ''{"a":1} trailing {not json}''\<close> "[]"
      \<open>py ''"a":1} trailing {not json''\<close> "[]"] ex_trailing
  by simp

text \<open>
  Claim C4, as the code has it. Let a text begin with an opening brace, end with a
  closing brace and contain no three backticks in a row; put before it any text without
  an opening brace and after it any text without a closing brace (fence markers are
  allowed in both). Then \<open>extract_json_from_text\<close> returns what \<open>json.loads\<close> returns on
  the text alone; in particular the parsed object, when the text is a JSON object.
\<close>

theorem extract_embedded_object:
  assumes "json_loads ([123] @ m @ [125]) = Inr v"
    and "\<not> sublist [96, 96, 96] ([123] @ m @ [125])"
    and "123 \<notin> set pre"
    and "125 \<notin> set post"
  shows "extract_json_from_text (pre @ [123] @ m @ [125] @ post) = Inr v"
  using extract_embedded [OF assms(2-4)] assms(1) by simp

theorem extract_embedded_object_witness:
  \<open>json_loads ([123] @ py ''"a":1'' @ [125]) = Inr (JObject [(py ''a'', JInt 1)])
   \<and> \<not> sublist [96, 96, 96] ([123] @ py ''"a":1'' @ [125])
   \<and> 123 \<notin> set (py ''Here is the JSON:\<newline>```json\<newline>'')
   \<and> 125 \<notin> set (py ''\<newline>```\<newline>Done.'')
   \<and> extract_json_from_text (py ''Here is the JSON:\<newline>```json\<newline>'' @ [123] @ py ''"a":1''
        @ [125] @ py ''\<newline>```\<newline>Done.'') = Inr (JObject [(py ''a'', JInt 1)])\<close>
proof -
  have l: \<open>json_loads ([123] @ py ''"a":1'' @ [125]) = Inr (JObject [(py ''a'', JInt 1)])\<close>
    by (simp add: json_eval)
  have p: \<open>123 \<notin> set (py ''Here is the JSON:\<newline>```json\<newline>'')\<close>
    by simp
  have q: \<open>125 \<notin> set (py ''\<newline>```\<newline>Done.'')\<close>
    by simp
  from extract_embedded_object [OF l no_fence_a1 p q] l no_fence_a1 p q show ?thesis
    by blast
qed

text \<open>
  The claim as stated fails in two ways: prose after the object that contains a closing
  brace makes the extraction fail, and three backticks inside a string of the object
  are removed, so that a different object is returned.
\<close>

theorem extract_embedded_counterexample:
  \<open>json_loads (py ''{"a":1}'') = Inr (JObject [(py ''a'', JInt 1)])
   \<and> extract_json_from_text (py ''{"a":1}'' @ py '' ok :-}'') = Inl JSONDecodeError
   \<and> json_loads (py ''{"a":"```"}'') = Inr (JObject [(py ''a'', JString (py ''```''))])
   \<and> extract_json_from_text (py ''{"a":"```"}'') = Inr (JObject [(py ''a'', JString [])])\<close>
  using loads_a1 extract_prose_brace loads_fence_string extract_fence_string
  by blast

section \<open>Properties of the prompt\<close>

text \<open>
  Claim C9. The prompt consists of exactly two messages, a system message and a user
  message. The user message embeds the question unchanged and, after it, the document
  text: the whole text when it has at most 6000 characters, and otherwise a prefix of it
  of exactly 6000 characters.
\<close>

theorem prompt_two_messages_truncated:
  \<open>length (prompt d q) = 2
   \<and> map role (prompt d q) = [py ''system'', py ''user'']
   \<and> (\<exists>doc. content (prompt d q ! 1)
            = JString (template_head @ q @ template_mid @ doc @ py ''\<newline>'')
          \<and> (length d \<le> 6000 \<longrightarrow> doc = d)
          \<and> (6000 < length d \<longrightarrow> length doc = 6000 \<and> prefix doc d))\<close>
proof -
  let ?doc = "take 6000 d"
  have "content (prompt d q ! 1)
          = JString (template_head @ q @ template_mid @ ?doc @ py ''\<newline>'')"
    by (simp add: prompt_def)
  moreover have "length d \<le> 6000 \<longrightarrow> ?doc = d"
    by simp
  moreover have "6000 < length d \<longrightarrow> length ?doc = 6000 \<and> prefix ?doc d"
    by (simp add: take_is_prefix)
  moreover have "length (prompt d q) = 2"
    and "map role (prompt d q) = [py ''system'', py ''user'']"
    by (simp_all add: prompt_def)
  ultimately show ?thesis
    by blast
qed

theorem prompt_two_messages_truncated_witness:
  \<open>6000 < length (replicate 6001 (97::nat))
   \<and> (\<exists>doc. content (prompt (replicate 6001 97) (py ''why?'') ! 1)
            = JString (template_head @ py ''why?'' @ template_mid @ doc @ py ''\<newline>'')
          \<and> length doc = 6000 \<and> prefix doc (replicate 6001 97))\<close>
  using prompt_two_messages_truncated [of "replicate 6001 97" "py ''why?''"]
  by simp

section \<open>The orchestrator\<close>

lemma call_ai_sent: "call_ai messages w = (r, w') \<Longrightarrow> sent w' = sent w @ [messages]"
  by (auto simp: call_ai_def requests_post_def split: option.splits if_splits)

lemma extract_call_sent: "extract_call messages w = (r, w') \<Longrightarrow> sent w' = sent w @ [messages]"
  by (auto simp: extract_call_def split: prod.splits sum.splits dest: call_ai_sent)

lemma extract_call_text:
  "call_ai messages w = (Inr (JString t), w') \<Longrightarrow>
   extract_call messages w = (extract_json_from_text t, w')"
  by (simp add: extract_call_def extract_json_from_value_def)

lemma call_ai_scripted:
  "length log < length rs \<Longrightarrow> rs ! length log = completion t \<Longrightarrow>
   call_ai messages (scripted rs log) = (Inr (JString t), scripted rs (log @ [messages]))"
  by (simp add: call_ai_def requests_post_def scripted_def completion_def first_content_def
      getitem_def getitem0_def get_default_def)


text \<open>
  Claim C7. If the first model call returns a text from which extraction succeeds,
  \<open>analyze_with_ai\<close> returns the extracted value, and the only request made is that one
  call with the analysis prompt: no repair, no retry.
\<close>

theorem analyze_first_call_success:
  assumes "api_key w = Some key"
    and "call_ai (prompt d q) w = (Inr (JString t), w1)"
    and "extract_json_from_text t = Inr v"
  shows "analyze_with_ai d q w = (Inr v, w1) \<and> sent w1 = sent w @ [prompt d q]"
  using assms by (simp add: analyze_with_ai_def extract_call_text call_ai_sent)

theorem analyze_first_call_success_witness:
  \<open>api_key (scripted [completion (py ''{}'')] []) = Some (py ''sk-test'')
   \<and> analyze_with_ai (py ''doc'') (py ''why?'') (scripted [completion (py ''{}'')] [])
       = (Inr (JObject []),
          scripted [completion (py ''{}'')] [prompt (py ''doc'') (py ''why?'')])\<close>
proof -
  have k: \<open>api_key (scripted [completion (py ''{}'')] []) = Some (py ''sk-test'')\<close>
    by (simp add: scripted_def)
  have c: \<open>call_ai (prompt (py ''doc'') (py ''why?'')) (scripted [completion (py ''{}'')] [])
      = (Inr (JString (py ''{}'')),
         scripted [completion (py ''{}'')] ([] @ [prompt (py ''doc'') (py ''why?'')]))\<close>
    by (rule call_ai_scripted) simp_all
  from analyze_first_call_success [OF k c extract_empty_object] k show ?thesis
    by simp
qed


text \<open>
  Claim C2. If the first attempt fails (in the model call or in the extraction) and the
  repair succeeds, exactly three requests are made: the analysis prompt, the analysis
  prompt again, whose answer \<open>raw\<close> becomes, as it is, the user message of the
  two-message repair prompt, and the repair prompt; the result is what is extracted
  from the answer to the repair prompt.
\<close>

theorem analyze_repair_success:
  assumes "api_key w = Some key"
    and "extract_call (prompt d q) w = (Inl e1, w1)"
    and "call_ai (prompt d q) w1 = (Inr raw, w2)"
    and "call_ai (repair_prompt raw) w2 = (Inr (JString t), w3)"
    and "extract_json_from_text t = Inr v"
  shows \<open>analyze_with_ai d q w = (Inr v, w3)
    \<and> sent w3 = sent w @ [prompt d q, prompt d q, repair_prompt raw]
    \<and> repair_prompt raw =
        [\<lparr>role = py ''system'', content = JString (py ''Fix and return ONLY valid JSON.'')\<rparr>,
         \<lparr>role = py ''user'', content = raw\<rparr>]\<close>
proof -
  have "attempt_repair (prompt d q) w1 = (Inr v, w3)"
    using assms(3-5) by (simp add: attempt_repair_def extract_call_text)
  then have "analyze_with_ai d q w = (Inr v, w3)"
    using assms(1,2) by (simp add: analyze_with_ai_def)
  moreover have "sent w3 = sent w @ [prompt d q, prompt d q, repair_prompt raw]"
    using extract_call_sent [OF assms(2)] call_ai_sent [OF assms(3)] call_ai_sent [OF assms(4)]
    by simp
  ultimately show ?thesis
    by (simp add: repair_prompt_def)
qed

theorem analyze_repair_success_witness:
  \<open>analyze_with_ai (py ''doc'') (py ''why?'')
      (scripted [completion (py ''{oops}''), completion (py ''{oops}''), completion (py ''{}'')] [])
    = (Inr (JObject []),
       scripted [completion (py ''{oops}''), completion (py ''{oops}''), completion (py ''{}'')]
         [prompt (py ''doc'') (py ''why?''), prompt (py ''doc'') (py ''why?''),
          repair_prompt (JString (py ''{oops}''))])\<close>
proof -
  let ?rs = \<open>[completion (py ''{oops}''), completion (py ''{oops}''), completion (py ''{}'')]\<close>
  let ?p = \<open>prompt (py ''doc'') (py ''why?'')\<close>
  let ?r = \<open>repair_prompt (JString (py ''{oops}''))\<close>
  have k: \<open>api_key (scripted ?rs []) = Some (py ''sk-test'')\<close>
    by (simp add: scripted_def)
  have c1: \<open>call_ai ?p (scripted ?rs []) = (Inr (JString (py ''{oops}'')), scripted ?rs ([] @ [?p]))\<close>
    by (rule call_ai_scripted) simp_all
  have a1: \<open>extract_call ?p (scripted ?rs []) = (Inl JSONDecodeError, scripted ?rs [?p])\<close>
    using extract_call_text [OF c1] extract_oops by simp
  have c2: \<open>call_ai ?p (scripted ?rs [?p]) = (Inr (JString (py ''{oops}'')), scripted ?rs ([?p] @ [?p]))\<close>
    by (rule call_ai_scripted) simp_all
  have c3: \<open>call_ai ?r (scripted ?rs ([?p] @ [?p]))
      = (Inr (JString (py ''{}'')), scripted ?rs (([?p] @ [?p]) @ [?r]))\<close>
    by (rule call_ai_scripted) simp_all
  from analyze_repair_success [OF k a1 c2 c3 extract_empty_object] show ?thesis
    by simp
qed


text \<open>
  Claim C1. If every model call returns a text from which extraction fails, then
  \<open>analyze_with_ai\<close> fails after exactly four requests (one in the first attempt, two in
  the repair, one in the last attempt), no value is returned, and the error is the
  error of the extraction in the third attempt.
\<close>

theorem analyze_all_fail:
  assumes "api_key w = Some key"
    and "call_ai (prompt d q) w = (Inr (JString t1), w1)"
    and "extract_json_from_text t1 = Inl e1"
    and "call_ai (prompt d q) w1 = (Inr (JString t2), w2)"
    and "call_ai (repair_prompt (JString t2)) w2 = (Inr (JString t3), w3)"
    and "extract_json_from_text t3 = Inl e3"
    and "call_ai (prompt d q) w3 = (Inr (JString t4), w4)"
    and "extract_json_from_text t4 = Inl e4"
  shows "analyze_with_ai d q w = (Inl e4, w4)
    \<and> sent w4 = sent w @ [prompt d q, prompt d q, repair_prompt (JString t2), prompt d q]"
proof -
  have a1: "extract_call (prompt d q) w = (Inl e1, w1)"
    using assms(2,3) by (simp add: extract_call_text)
  have a2: "attempt_repair (prompt d q) w1 = (Inl e3, w3)"
    using assms(4-6) by (simp add: attempt_repair_def extract_call_text)
  have a3: "extract_call (prompt d q) w3 = (Inl e4, w4)"
    using assms(7,8) by (simp add: extract_call_text)
  have "analyze_with_ai d q w = (Inl e4, w4)"
    using assms(1) a1 a2 a3 by (simp add: analyze_with_ai_def)
  moreover have "sent w4 = sent w @ [prompt d q, prompt d q, repair_prompt (JString t2), prompt d q]"
    using call_ai_sent [OF assms(2)] call_ai_sent [OF assms(4)] call_ai_sent [OF assms(5)]
      call_ai_sent [OF assms(7)]
    by simp
  ultimately show ?thesis by simp
qed

theorem analyze_all_fail_witness:
  \<open>analyze_with_ai (py ''doc'') (py ''why?'') (scripted (replicate 4 (completion (py ''{oops}''))) [])
    = (Inl JSONDecodeError,
       scripted (replicate 4 (completion (py ''{oops}'')))
         [prompt (py ''doc'') (py ''why?''), prompt (py ''doc'') (py ''why?''),
          repair_prompt (JString (py ''{oops}'')), prompt (py ''doc'') (py ''why?'')])\<close>
proof -
  let ?rs = \<open>replicate 4 (completion (py ''{oops}''))\<close>
  let ?p = \<open>prompt (py ''doc'') (py ''why?'')\<close>
  let ?r = \<open>repair_prompt (JString (py ''{oops}''))\<close>
  have k: \<open>api_key (scripted ?rs []) = Some (py ''sk-test'')\<close>
    by (simp add: scripted_def)
  have c1: \<open>call_ai ?p (scripted ?rs []) = (Inr (JString (py ''{oops}'')), scripted ?rs ([] @ [?p]))\<close>
    by (rule call_ai_scripted) simp_all
  have c2: \<open>call_ai ?p (scripted ?rs ([] @ [?p]))
      = (Inr (JString (py ''{oops}'')), scripted ?rs (([] @ [?p]) @ [?p]))\<close>
    by (rule call_ai_scripted) simp_all
  have c3: \<open>call_ai ?r (scripted ?rs (([] @ [?p]) @ [?p]))
      = (Inr (JString (py ''{oops}'')), scripted ?rs ((([] @ [?p]) @ [?p]) @ [?r]))\<close>
    by (rule call_ai_scripted) simp_all
  have c4: \<open>call_ai ?p (scripted ?rs ((([] @ [?p]) @ [?p]) @ [?r]))
      = (Inr (JString (py ''{oops}'')), scripted ?rs (((([] @ [?p]) @ [?p]) @ [?r]) @ [?p]))\<close>
    by (rule call_ai_scripted) simp_all
  from analyze_all_fail [OF k c1 extract_oops c2 c3 extract_oops c4 extract_oops] show ?thesis
    by simp
qed

text \<open>
  Claim C3, as the code has it. A value returned by \<open>analyze_with_ai\<close> is what
  \<open>extract_json_from_text\<close> parsed from the text returned by the last model call, and
  it is a JSON object. Nothing is added to it or filled in; which keys it has is not
  checked.
\<close>

lemma extract_call_value:
  "extract_call messages w = (Inr v, w') \<Longrightarrow>
   \<exists>t. call_ai messages w = (Inr (JString t), w') \<and> extract_json_from_text t = Inr v"
  by (auto simp: extract_call_def extract_json_from_value_def
      split: prod.splits sum.splits json.splits if_splits)

lemma analyze_scripted_empty_object:
  \<open>analyze_with_ai (py ''doc'') (py ''why?'') (scripted [completion (py ''{}'')] [])
      = (Inr (JObject []), scripted [completion (py ''{}'')] [prompt (py ''doc'') (py ''why?'')])\<close>
proof -
  let ?w = \<open>scripted [completion (py ''{}'')] []\<close>
  let ?p = \<open>prompt (py ''doc'') (py ''why?'')\<close>
  have k: \<open>api_key ?w = Some (py ''sk-test'')\<close>
    by (simp add: scripted_def)
  have c: \<open>call_ai ?p ?w = (Inr (JString (py ''{}'')), scripted [completion (py ''{}'')] ([] @ [?p]))\<close>
    by (rule call_ai_scripted) simp_all
  have \<open>extract_call ?p ?w = (Inr (JObject []), scripted [completion (py ''{}'')] [?p])\<close>
    using extract_call_text [OF c] extract_empty_object by simp
  with k show ?thesis
    by (simp add: analyze_with_ai_def)
qed

theorem analyze_returns_last_extraction:
  assumes "analyze_with_ai d q w = (Inr v, w')"
  shows "\<exists>messages w0 t. call_ai messages w0 = (Inr (JString t), w')
           \<and> extract_json_from_text t = Inr v \<and> (\<exists>kvs. v = JObject kvs)"
proof -
  from assms have "\<exists>messages w0. extract_call messages w0 = (Inr v, w')"
    by (auto simp: analyze_with_ai_def attempt_repair_def Let_def
        split: option.splits prod.splits sum.splits)
  then obtain messages w0 t where "call_ai messages w0 = (Inr (JString t), w')"
    and "extract_json_from_text t = Inr v"
    by (blast dest: extract_call_value)
  then show ?thesis
    by (blast dest: extract_json_from_text_object)
qed

theorem analyze_returns_last_extraction_witness:
  \<open>analyze_with_ai (py ''doc'') (py ''why?'') (scripted [completion (py ''{}'')] [])
      = (Inr (JObject []), scripted [completion (py ''{}'')] [prompt (py ''doc'') (py ''why?'')])
   \<and> (\<exists>messages w0 t. call_ai messages w0
          = (Inr (JString t), scripted [completion (py ''{}'')] [prompt (py ''doc'') (py ''why?'')])
        \<and> extract_json_from_text t = Inr (JObject []))\<close>
  using analyze_returns_last_extraction [OF analyze_scripted_empty_object]
    analyze_scripted_empty_object
  by blast


text \<open>
  The claim as stated fails: when the model answers \<open>{}\<close>, the object without any of the
  four fields is returned as the result.
\<close>

theorem analyze_empty_object_counterexample:
  \<open>fst (analyze_with_ai (py ''doc'') (py ''why?'') (scripted [completion (py ''{}'')] []))
     = Inr (JObject [])
   \<and> map_of ([] :: (pystr \<times> json) list) (py ''key_points'') = None\<close>
  using analyze_scripted_empty_object by simp

section \<open>The model client\<close>

lemma first_content_not_RuntimeError: "first_content j \<noteq> Inl (RuntimeError b)"
  by (auto simp: first_content_def getitem_def getitem0_def get_default_def
      split: sum.splits json.splits option.splits list.splits)

lemma first_content_shape:
  "map_of kvs (py ''choices'') = Some (JArray (JObject cvs # others)) \<Longrightarrow>
   map_of cvs (py ''message'') = Some (JObject mvs) \<Longrightarrow>
   first_content (JObject kvs)
     = Inr (case map_of mvs (py ''content'') of None \<Rightarrow> JString [] | Some c \<Rightarrow> c)"
  by (simp add: first_content_def getitem_def getitem0_def get_default_def)


text \<open>
  Claim C6, as the code has it. \<open>call_ai\<close> raises \<open>RuntimeError\<close> with the body of the
  response exactly when the status code is not 200; the status itself is not part of
  the error. On status 200, with a body whose \<open>choices[0].message\<close> is an object,
  it returns the \<open>content\<close> of that message, or the empty string when there is none.
\<close>

theorem call_ai_status_200:
  \<open>(fst (call_ai messages w) = Inl (RuntimeError b)
      \<longleftrightarrow> (\<exists>r. server w (length (sent w)) messages = Some r
               \<and> status_code r \<noteq> 200 \<and> body_text r = b))
   \<and> (\<forall>r kvs cvs others mvs.
         server w (length (sent w)) messages = Some r \<and> status_code r = 200
         \<and> body_json r = Some (JObject kvs)
         \<and> map_of kvs (py ''choices'') = Some (JArray (JObject cvs # others))
         \<and> map_of cvs (py ''message'') = Some (JObject mvs)
         \<longrightarrow> fst (call_ai messages w)
               = Inr (case map_of mvs (py ''content'') of None \<Rightarrow> JString [] | Some c \<Rightarrow> c))\<close>
proof (intro conjI allI impI)
  show \<open>fst (call_ai messages w) = Inl (RuntimeError b)
      \<longleftrightarrow> (\<exists>r. server w (length (sent w)) messages = Some r
               \<and> status_code r \<noteq> 200 \<and> body_text r = b)\<close>
    by (auto simp: call_ai_def requests_post_def first_content_not_RuntimeError
        split: option.splits)
next
  fix r kvs cvs others mvs
  assume \<open>server w (length (sent w)) messages = Some r \<and> status_code r = 200
         \<and> body_json r = Some (JObject kvs)
         \<and> map_of kvs (py ''choices'') = Some (JArray (JObject cvs # others))
         \<and> map_of cvs (py ''message'') = Some (JObject mvs)\<close>
  then show \<open>fst (call_ai messages w)
               = Inr (case map_of mvs (py ''content'') of None \<Rightarrow> JString [] | Some c \<Rightarrow> c)\<close>
    by (simp add: call_ai_def requests_post_def first_content_shape)
qed

theorem call_ai_status_200_witness:
  \<open>fst (call_ai [] (scripted
       [\<lparr>status_code = 500, body_text = py ''Internal Server Error'', body_json = None\<rparr>] []))
     = Inl (RuntimeError (py ''Internal Server Error''))
   \<and> fst (call_ai [] (scripted [completion (py ''{}'')] [])) = Inr (JString (py ''{}''))\<close>
proof -
  let ?r = \<open>\<lparr>status_code = 500, body_text = py ''Internal Server Error'', body_json = None\<rparr>\<close>
  have \<open>\<exists>r. server (scripted [?r] []) (length (sent (scripted [?r] []))) [] = Some r
          \<and> status_code r \<noteq> 200 \<and> body_text r = py ''Internal Server Error''\<close>
    by (simp add: scripted_def)
  with call_ai_status_200 [of "[]" \<open>scripted [?r] []\<close> \<open>py ''Internal Server Error''\<close>]
  have a: \<open>fst (call_ai [] (scripted [?r] [])) = Inl (RuntimeError (py ''Internal Server Error''))\<close>
    by blast
  have \<open>server (scripted [completion (py ''{}'')] []) (length (sent (scripted [completion (py ''{}'')] []))) []
          = Some (completion (py ''{}''))\<close>
    by (simp add: scripted_def)
  with call_ai_status_200 [of "[]" \<open>scripted [completion (py ''{}'')] []\<close> "[]"]
  have \<open>fst (call_ai [] (scripted [completion (py ''{}'')] [])) = Inr (JString (py ''{}''))\<close>
    by (simp add: completion_def)
  with a show ?thesis by simp
qed


text \<open>
  The claim as stated fails for the statuses 201 to 299: a reply with status 201 and a
  well-formed body makes \<open>call_ai\<close> raise.
\<close>

theorem call_ai_201_counterexample:
  \<open>200 \<le> status_code (completion (py ''ok'')\<lparr>status_code := 201\<rparr>)
   \<and> status_code (completion (py ''ok'')\<lparr>status_code := 201\<rparr>) < 300
   \<and> body_json (completion (py ''ok'')\<lparr>status_code := 201\<rparr>)
       = Some (JObject [(py ''choices'',
           JArray [JObject [(py ''message'', JObject [(py ''content'', JString (py ''ok''))])]])])
   \<and> fst (call_ai (prompt (py ''doc'') (py ''why?''))
            (scripted [completion (py ''ok'')\<lparr>status_code := 201\<rparr>] []))
       = Inl (RuntimeError (py ''{"choices":[{"message":{"content":"ok"}}]}''))\<close>
  by (simp add: call_ai_def requests_post_def scripted_def completion_def)

end
